theory Spec2Isabelle
  imports Complex_Main "HOL-Library.Word"
begin

unbundle bit_operations_syntax

section \<open>Bytes, errors and the struct module\<close>

text \<open>
  The tools are Python 2: a \<open>str\<close> is a sequence of bytes, an \<open>int\<close> is unbounded and
  \<open>/\<close> on two ints is floor division. A byte is an 8-bit word, a byte string a list of
  them; every \<open>raise\<close> of the source (and every exception of \<open>struct\<close>) is a value of
  \<open>error\<close>, returned on the left of a sum.
\<close>

type_synonym byte = "8 word"
type_synonym bytes = "byte list"

datatype error =
    StructError
  | ZeroDivisionError
  | SyncExpected bytes
  | NoStartByte
  | StartExpected bytes
  | InvalidChecksum
  | UnexpectedResponse bytes
  | Timeout
  | MissingSignature
  | Unk1Expected int

text \<open>
  \<open>struct.pack\<close> with the byte order \<open><\<close> (little-endian, no alignment): \<open>b\<close> is a
  signed char, \<open>B\<close> an unsigned char, \<open>H\<close> an unsigned 16-bit value, \<open>L\<close> an unsigned
  32-bit value, \<open>x\<close> a zero pad byte, \<open>c\<close> a single character. A value out of the
  format's range raises \<open>struct.error\<close>.
\<close>

definition pack_b :: "int \<Rightarrow> error + bytes" where
  "pack_b v = (if - 128 \<le> v \<and> v \<le> 127 then Inr [word_of_int v] else Inl StructError)"

definition pack_B :: "int \<Rightarrow> error + bytes" where
  "pack_B v = (if 0 \<le> v \<and> v \<le> 255 then Inr [word_of_int v] else Inl StructError)"

definition pack_H :: "int \<Rightarrow> error + bytes" where
  "pack_H v =
     (if 0 \<le> v \<and> v \<le> 65535 then Inr [word_of_int v, word_of_int (v div 256)]
      else Inl StructError)"

definition pack_L :: "int \<Rightarrow> error + bytes" where
  "pack_L v =
     (if 0 \<le> v \<and> v \<le> 4294967295
      then Inr [word_of_int v, word_of_int (v div 256),
                word_of_int (v div 65536), word_of_int (v div 16777216)]
      else Inl StructError)"

definition pack_bHx :: "int \<Rightarrow> int \<Rightarrow> error + bytes" where
  "pack_bHx cmd n =
     (case pack_b cmd of Inl e \<Rightarrow> Inl e
      | Inr c \<Rightarrow> (case pack_H n of Inl e \<Rightarrow> Inl e | Inr l \<Rightarrow> Inr (c @ l @ [0x00])))"

definition pack_BBH :: "int \<Rightarrow> int \<Rightarrow> int \<Rightarrow> error + bytes" where
  "pack_BBH key unk1 sz =
     (case pack_B key of Inl e \<Rightarrow> Inl e
      | Inr k \<Rightarrow> (case pack_B unk1 of Inl e \<Rightarrow> Inl e
      | Inr u \<Rightarrow> (case pack_H sz of Inl e \<Rightarrow> Inl e | Inr s \<Rightarrow> Inr (k @ u @ s))))"

text \<open>
  \<open>struct.unpack\<close> raises \<open>struct.error\<close> unless the string has exactly the length of
  the format.
\<close>

fun unpack_bHx :: "bytes \<Rightarrow> error + int \<times> int" where
  "unpack_bHx [c, l0, l1, x] = Inr (sint c, uint l0 + 256 * uint l1)"
| "unpack_bHx header = Inl StructError"

fun unpack_cbHx :: "bytes \<Rightarrow> error + byte \<times> int \<times> int" where
  "unpack_cbHx [s, c, l0, l1, x] = Inr (s, sint c, uint l0 + 256 * uint l1)"
| "unpack_cbHx header = Inl StructError"

fun unpack_BBH :: "bytes \<Rightarrow> error + int \<times> int \<times> int" where
  "unpack_BBH [k, u, s0, s1] = Inr (uint k, uint u, uint s0 + 256 * uint s1)"
| "unpack_BBH header = Inl StructError"

section \<open>Checksum\<close>

text \<open>
  Modelled from the spec: \<open>crc16.crc16xmodem\<close> comes from the third-party \<open>crc16\<close>
  package, which is not a file of this repository. Section 4.1 of the specification gives
  it as CRC-16 with the XMODEM polynomial \<open>0x1021\<close>, initial value \<open>0x0000\<close>, no input or
  output reflection: each byte is XORed into the high byte of the register, which is then
  shifted left eight times, the polynomial being XORed in whenever a one is shifted out.
\<close>

definition crc16_shift :: "16 word \<Rightarrow> 16 word \<Rightarrow> 16 word" where
  "crc16_shift poly crc = (if bit crc 15 then push_bit 1 crc XOR poly else push_bit 1 crc)"

definition crc16_byte :: "16 word \<Rightarrow> 16 word \<Rightarrow> byte \<Rightarrow> 16 word" where
  "crc16_byte poly crc b = (crc16_shift poly ^^ 8) (crc XOR push_bit 8 (ucast b))"

definition crc16_msb_first :: "16 word \<Rightarrow> 16 word \<Rightarrow> bytes \<Rightarrow> 16 word" where
  "crc16_msb_first poly init msg = foldl (crc16_byte poly) init msg"

definition crc16xmodem :: "bytes \<Rightarrow> 16 word" where
  "crc16xmodem msg = crc16_msb_first 0x1021 0x0000 msg"

section \<open>Frames\<close>

text \<open>\<open>QNClient.build_packet\<close>, the same in \<open>qntool.py\<close> and \<open>nvdstool.py\<close>.\<close>

definition build_packet :: "int \<Rightarrow> bytes \<Rightarrow> error + bytes" where
  "build_packet cmd data =
     (case pack_bHx cmd (int (length data)) of Inl e \<Rightarrow> Inl e
      | Inr hdr \<Rightarrow>
          (let msg = hdr @ data; checksum = crc16xmodem msg
           in case pack_H (uint checksum) of Inl e \<Rightarrow> Inl e
              | Inr c \<Rightarrow> Inr (0x71 # msg @ c)))"

section \<open>The serial port and the clock\<close>

text \<open>
  The serial port is the tools' only state. What the device sends is a list of events: a
  byte, or a silence long enough for the read waiting there to time out. After the last
  event the line stays silent. \<open>ser.read(n)\<close> returns up to \<open>n\<close> bytes: it stops early at a
  silence, which it uses up. \<open>tx\<close> collects every byte written. \<open>ser_timeout\<close> is
  \<open>ser.timeout\<close> in seconds; how long a read waits is already part of the events, so the
  field is only carried along. \<open>time.time()\<close> returns the next reading of a wall clock
  given as a sequence, \<open>ticks\<close> counting the readings taken.
\<close>

datatype rx_event = Rx byte | Quiet

record world =
  rx :: "rx_event list"
  tx :: bytes
  ser_timeout :: real
  wall_clock :: "nat \<Rightarrow> real"
  ticks :: nat

fun take_rx :: "nat \<Rightarrow> rx_event list \<Rightarrow> bytes \<times> rx_event list" where
  "take_rx 0 evs = ([], evs)"
| "take_rx (Suc n) [] = ([], [])"
| "take_rx (Suc n) (Quiet # evs) = ([], evs)"
| "take_rx (Suc n) (Rx b # evs) = (case take_rx n evs of (bs, evs') \<Rightarrow> (b # bs, evs'))"

definition ser_read :: "nat \<Rightarrow> world \<Rightarrow> bytes \<times> world" where
  "ser_read n w = (case take_rx n (rx w) of (bs, evs) \<Rightarrow> (bs, w\<lparr>rx := evs\<rparr>))"

definition ser_write :: "bytes \<Rightarrow> world \<Rightarrow> world" where
  "ser_write bs w = w\<lparr>tx := tx w @ bs\<rparr>"

definition time_time :: "world \<Rightarrow> real \<times> world" where
  "time_time w = (wall_clock w (ticks w), w\<lparr>ticks := Suc (ticks w)\<rparr>)"

section \<open>Commands and responses\<close>

text \<open>
  What \<open>read_packet\<close> returns: \<open>None\<close>, the integer \<open>ord(startbyte)\<close>, or the payload.
\<close>

datatype reply = NoReply | ResultCode int | Payload bytes

definition send_command :: "int \<Rightarrow> bytes \<Rightarrow> world \<Rightarrow> (error + unit) \<times> world" where
  "send_command cmd data w =
     (case build_packet cmd data of Inl e \<Rightarrow> (Inl e, w)
      | Inr pkt \<Rightarrow> (Inr (), ser_write pkt w))"

text \<open>\<open>QNClient.read_packet\<close> of \<open>qntool.py\<close>.\<close>

definition read_packet :: "bool \<Rightarrow> world \<Rightarrow> (error + reply) \<times> world" where
  "read_packet only_confirm w0 =
     (case ser_read 1 w0 of (sync, w1) \<Rightarrow>
      if sync \<noteq> [0x01] then (Inl (SyncExpected sync), w1)
      else if only_confirm then (Inr NoReply, w1)
      else (case ser_read 1 (w1\<lparr>ser_timeout := 5\<rparr>) of (startbyte, w2) \<Rightarrow>
        if startbyte = [] then (Inl NoStartByte, w2)
        else if startbyte = [0x03] \<or> startbyte = [0x04]
          then (Inr (ResultCode (uint (hd startbyte))), w2)
        else (case ser_read 4 w2 of (header, w3) \<Rightarrow>
          (let w4 = w3\<lparr>ser_timeout := 0.5\<rparr> in
           case unpack_bHx header of Inl e \<Rightarrow> (Inl e, w4)
           | Inr (cmd, data_len) \<Rightarrow>
               if startbyte \<noteq> [0x71] then (Inl (StartExpected startbyte), w4)
               else (case ser_read (nat data_len) w4 of (data, w5) \<Rightarrow>
                 (let crc = crc16xmodem (header @ data) in
                  case ser_read 2 w5 of (chk, w6) \<Rightarrow>
                    if Inr chk \<noteq> pack_H (uint crc) then (Inl InvalidChecksum, w6)
                    else (Inr (Payload data), w6)))))))"

text \<open>\<open>QNClient.read_packet\<close> of \<open>nvdstool.py\<close>, which reads start byte and header at once.\<close>

definition nvdstool_read_packet :: "world \<Rightarrow> (error + reply) \<times> world" where
  "nvdstool_read_packet w0 =
     (case ser_read 1 w0 of (sync, w1) \<Rightarrow>
      if sync \<noteq> [0x01] then (Inl (SyncExpected sync), w1)
      else (case ser_read 5 w1 of (header, w2) \<Rightarrow>
        if header = [] then (Inr NoReply, w2)
        else (case unpack_cbHx header of Inl e \<Rightarrow> (Inl e, w2)
          | Inr (startbyte, cmd, data_len) \<Rightarrow>
              if startbyte \<noteq> 0x71 then (Inl (StartExpected [startbyte]), w2)
              else (case ser_read (nat data_len) w2 of (data, w3) \<Rightarrow>
                (let crc = crc16xmodem (tl header @ data) in
                 case ser_read 2 w3 of (chk, w4) \<Rightarrow>
                   if Inr chk \<noteq> pack_H (uint crc) then (Inl InvalidChecksum, w4)
                   else (Inr (Payload data), w4))))))"

text \<open>
  Every command method of \<open>qntool.py\<close> has the same body: \<open>send_command\<close>, then
  \<open>read_packet\<close> (confirm-only or not), whose value it returns. \<open>request\<close> is that body;
  the methods follow, those with an integer argument packing it with \<open>struct.pack('<L', _)\<close>.
\<close>

definition request :: "int \<Rightarrow> bytes \<Rightarrow> bool \<Rightarrow> world \<Rightarrow> (error + reply) \<times> world" where
  "request cmd data only_confirm w =
     (case send_command cmd data w of (Inl e, w1) \<Rightarrow> (Inl e, w1)
      | (Inr u, w1) \<Rightarrow> read_packet only_confirm w1)"

definition reboot :: "world \<Rightarrow> (error + reply) \<times> world" where
  "reboot w = request 0x4a [] True w"

definition set_load_target :: "int \<Rightarrow> world \<Rightarrow> (error + reply) \<times> world" where
  "set_load_target target w =
     (case pack_L target of Inl e \<Rightarrow> (Inl e, w) | Inr arg \<Rightarrow> request 0x39 arg True w)"

definition get_bootloader_version :: "world \<Rightarrow> (error + reply) \<times> world" where
  "get_bootloader_version w = request 0x36 [] False w"

definition get_chip_id :: "world \<Rightarrow> (error + reply) \<times> world" where
  "get_chip_id w = request 0x37 [] False w"

definition get_flash_id :: "world \<Rightarrow> (error + reply) \<times> world" where
  "get_flash_id w = request 0x38 [] False w"

definition program :: "bytes \<Rightarrow> world \<Rightarrow> (error + reply) \<times> world" where
  "program data w = request 0x45 data False w"

definition set_program_address :: "int \<Rightarrow> world \<Rightarrow> (error + reply) \<times> world" where
  "set_program_address address w =
     (case pack_L address of Inl e \<Rightarrow> (Inl e, w) | Inr arg \<Rightarrow> request 0x3b arg True w)"

definition sector_erase :: "int \<Rightarrow> world \<Rightarrow> (error + reply) \<times> world" where
  "sector_erase sector_count w =
     (case pack_L sector_count of Inl e \<Rightarrow> (Inl e, w) | Inr arg \<Rightarrow> request 0x42 arg False w)"

section \<open>The handshake\<close>

text \<open>
  \<open>QNClient.calc_div\<close>: Python 2 integer arithmetic, \<open>/\<close> rounding towards minus
  infinity as \<open>div\<close> does, and raising \<open>ZeroDivisionError\<close> on a zero divisor.
\<close>

definition calc_div :: "int \<Rightarrow> int \<Rightarrow> error + int" where
  "calc_div clock baudrate =
     (let tmp = 16 * baudrate in
      if tmp = 0 then Inl ZeroDivisionError
      else (let inter_div = clock div tmp;
                frac_div = ((clock - inter_div * tmp) * 64 + tmp div 2) div tmp
            in Inr (push_bit 8 inter_div + frac_div)))"

text \<open>
  The specification's formula (sections 3 and 4.3), in its own words: quotients of real
  numbers under \<open>floor\<close>, the register packed with a bitwise or.
\<close>

definition integerDivisor_spec :: "int \<Rightarrow> int \<Rightarrow> int" where
  "integerDivisor_spec clockHz baudRate =
     \<lfloor>real_of_int clockHz / real_of_int (16 * baudRate)\<rfloor>"

definition fractionalDivisor_spec :: "int \<Rightarrow> int \<Rightarrow> int" where
  "fractionalDivisor_spec clockHz baudRate =
     (let scaled = 16 * baudRate
      in \<lfloor>(real_of_int ((clockHz - integerDivisor_spec clockHz baudRate * scaled) * 64)
            + real_of_int scaled / 2) / real_of_int scaled\<rfloor>)"

definition divisor_register_spec :: "int \<Rightarrow> int \<Rightarrow> int" where
  "divisor_register_spec clockHz baudRate =
     push_bit 8 (integerDivisor_spec clockHz baudRate) OR fractionalDivisor_spec clockHz baudRate"

text \<open>The payload \<open>'\x2c\x08\x00\x00'\<close> that \<open>connect\<close> of \<open>nvdstool.py\<close> sends with 0x34.\<close>

definition nvdstool_clock_reg :: bytes where
  "nvdstool_clock_reg = [0x2c, 0x08, 0x00, 0x00]"

text \<open>
  The low-baud loop of \<open>connect\<close> (the same in both tools). The loop has no bound of its
  own, so it is a partial function: \<open>None\<close> is a run that never leaves the loop.
  \<open>time.time()\<close> is read only when the read was empty and \<open>timeout > 0\<close>, as Python's
  \<open>and\<close> evaluates.
\<close>

partial_function (option)
  sync_loop :: "real \<Rightarrow> real \<Rightarrow> world \<Rightarrow> ((error + unit) \<times> world) option" where
  "sync_loop timeout start_time w0 =
     (case ser_read 1 (ser_write [0x33] w0) of (resp, w1) \<Rightarrow>
      if resp \<noteq> [] then
        (if resp = [0x01] then Some (Inr (), w1)
         else Some (Inl (UnexpectedResponse resp), w1))
      else if timeout > 0 then
        (case time_time w1 of (now, w2) \<Rightarrow>
           if now - start_time > timeout then Some (Inl Timeout, w2)
           else sync_loop timeout start_time w2)
      else sync_loop timeout start_time w1)"

definition connect_sync :: "real \<Rightarrow> world \<Rightarrow> ((error + unit) \<times> world) option" where
  "connect_sync timeout w =
     (case time_time (w\<lparr>ser_timeout := 0.02\<rparr>) of (start_time, w0) \<Rightarrow>
        sync_loop timeout start_time w0)"

section \<open>The NVDS block\<close>

text \<open>
  \<open>NVDSParser.loads\<close>. The dictionary it fills is a map from keys to values. Slices
  never fail: \<open>data[:n]\<close> is \<open>take n\<close> and \<open>data[n:]\<close> is \<open>drop n\<close>. The loop ends at the
  sentinel, or with the \<open>struct.error\<close> of a header shorter than four bytes.
\<close>

definition nvds_signature :: bytes where
  "nvds_signature = [0x4e, 0x56, 0x44, 0x53]"

function loads_loop :: "(int \<rightharpoonup> bytes) \<Rightarrow> bytes \<Rightarrow> error + (int \<rightharpoonup> bytes)" where
  "loads_loop vals data =
     (case unpack_BBH (take 4 data) of Inl e \<Rightarrow> Inl e
      | Inr (key, unk1, sz) \<Rightarrow>
          (let data1 = drop 4 data in
           if key = 0xff \<and> unk1 = 0xff then Inr vals
           else if unk1 \<noteq> 6 then Inl (Unk1Expected unk1)
           else (let val = take (nat sz) data1;
                     data2 = drop (nat sz) data1;
                     data3 = (if sz mod 4 \<noteq> 0 then drop (nat (4 - sz mod 4)) data2 else data2)
                 in loads_loop (vals(key \<mapsto> val)) data3)))"
  by pat_completeness auto
termination
proof (relation "measure (\<lambda>(vals, data). length data)")
  show "wf (measure (\<lambda>(vals, data). length data))"
    by simp
next
  fix vals :: "int \<rightharpoonup> bytes" and data :: bytes
    and x2 :: "int \<times> int \<times> int" and key x2a unk1 sz and data1 val data2 data3 :: bytes
  assume h: "unpack_BBH (take 4 data) = Inr x2"
    and d1: "data1 = drop 4 data"
    and d2: "data2 = drop (nat sz) data1"
    and d3: "data3 = (if sz mod 4 \<noteq> 0 then drop (nat (4 - sz mod 4)) data2 else data2)"
  from h have "length (take 4 data) = 4"
    by (cases "take 4 data" rule: unpack_BBH.cases) simp_all
  then have "4 \<le> length data"
    by simp
  with d1 d2 d3 show "((vals(key \<mapsto> val), data3), (vals, data)) \<in> measure (\<lambda>(vals, data). length data)"
    by (simp split: if_splits)
qed

declare loads_loop.simps [simp del]

definition loads :: "bytes \<Rightarrow> error + (int \<rightharpoonup> bytes)" where
  "loads data =
     (let sig = take 4 data; data0 = drop 4 data in
      if sig \<noteq> nvds_signature then Inl MissingSignature
      else loads_loop Map.empty data0)"

text \<open>
  \<open>NVDSParser.dumps\<close>. Its argument is the list \<open>values.items()\<close>, in the order the
  dictionary iterates: the keys of a dictionary are distinct. \<open>'\xff' * n\<close> is the empty
  string when \<open>n\<close> is negative.
\<close>

fun dumps_loop :: "bytes \<Rightarrow> (int \<times> bytes) list \<Rightarrow> error + bytes" where
  "dumps_loop data [] = Inr data"
| "dumps_loop data ((key, val) # items) =
     (case pack_BBH key 6 (int (length val)) of Inl e \<Rightarrow> Inl e
      | Inr hdr \<Rightarrow>
          (let data1 = data @ hdr;
               data2 = data1 @ val;
               data3 = (if length val mod 4 \<noteq> 0
                        then data2 @ replicate (4 - length val mod 4) 0xff else data2)
           in dumps_loop data3 items))"

definition dumps :: "(int \<times> bytes) list \<Rightarrow> error + bytes" where
  "dumps items =
     (case dumps_loop nvds_signature items of Inl e \<Rightarrow> Inl e
      | Inr data \<Rightarrow>
          Inr (data @ (if 4096 - int (length data) < 0 then []
                       else replicate (nat (4096 - int (length data))) 0xff)))"

text \<open>
  The layout of a block, for the statements below: the bytes of one entry (header, value,
  and 0xFF up to the next multiple of four, as section 3 of the specification has it),
  the length of the signature and all entries together, and the items \<open>struct.pack\<close>
  accepts.
\<close>

definition nvds_entry :: "int \<times> bytes \<Rightarrow> bytes" where
  "nvds_entry item =
     (case item of (key, val) \<Rightarrow>
        [word_of_int key, 0x06, word_of_int (int (length val)), word_of_int (int (length val) div 256)]
        @ val @ replicate ((4 - length val mod 4) mod 4) 0xff)"

definition content_length :: "(int \<times> bytes) list \<Rightarrow> nat" where
  "content_length items =
     4 + (\<Sum>(key, val) \<leftarrow> items. 4 + length val + (4 - length val mod 4) mod 4)"

definition valid_item :: "int \<times> bytes \<Rightarrow> bool" where
  "valid_item item = (case item of (key, val) \<Rightarrow> 0 \<le> key \<and> key \<le> 255 \<and> length val \<le> 65535)"

text \<open>
  \<open>NVDSParser.fields\<close> and \<open>NVDSParser.describe\<close>. The values of \<open>fields\<close> are
  one-element tuples of strings; a Python value here is a string or a tuple.
\<close>

datatype pyval = PyStr string | PyTuple "pyval list"

definition fields :: "(int \<times> pyval) list" where
  "fields =
     [(1, PyTuple [PyStr ''Device address'']),
      (2, PyTuple [PyStr ''Device name'']),
      (3, PyTuple [PyStr ''Clock drift'']),
      (4, PyTuple [PyStr ''External wake-up time'']),
      (5, PyTuple [PyStr ''Oscillator wake-up time'']),
      (6, PyTuple [PyStr ''Radio wake-up time'']),
      (7, PyTuple [PyStr ''Sleep mode enable'']),
      (8, PyTuple [PyStr ''Factory_Setting_2'']),
      (9, PyTuple [PyStr ''Factory_Setting_3'']),
      (10, PyTuple [PyStr ''Factory_Setting_4'']),
      (11, PyTuple [PyStr ''TK Type'']),
      (12, PyTuple [PyStr ''TK'']),
      (13, PyTuple [PyStr ''IRK'']),
      (14, PyTuple [PyStr ''CSRK'']),
      (15, PyTuple [PyStr ''LTK'']),
      (16, PyTuple [PyStr ''XCSEL'']),
      (17, PyTuple [PyStr ''Temperature offset'']),
      (18, PyTuple [PyStr ''ADC scale'']),
      (19, PyTuple [PyStr ''ADC VCM''])]"

text \<open>\<open>d.get(key, default)\<close> of a dictionary given by its items.\<close>

definition dict_get :: "(int \<times> pyval) list \<Rightarrow> int \<Rightarrow> pyval \<Rightarrow> pyval" where
  "dict_get d key dflt = (case map_of d key of None \<Rightarrow> dflt | Some v \<Rightarrow> v)"

text \<open>
  \<open>t[0]\<close>: the first element of a tuple, the first character of a string, an
  \<open>IndexError\<close> when there is none.
\<close>

datatype py_error = IndexError

fun index0 :: "pyval \<Rightarrow> py_error + pyval" where
  "index0 (PyTuple (v # vs)) = Inr v"
| "index0 (PyStr (c # cs)) = Inr (PyStr [c])"
| "index0 v = Inl IndexError"

text \<open>
  The \<open>return\<close> statement of \<open>describe\<close> ends with a comma: the value returned is the
  one-element tuple of the label.
\<close>

definition describe :: "int \<Rightarrow> py_error + pyval" where
  "describe key =
     (case index0 (dict_get fields key (PyTuple [PyStr ''Unknown''])) of Inl e \<Rightarrow> Inl e
      | Inr label \<Rightarrow> Inr (PyTuple [label]))"

section \<open>Facts about the struct module and the checksum\<close>

lemma sint_byte_of_int: "- 128 \<le> c \<Longrightarrow> c \<le> 127 \<Longrightarrow> sint (word_of_int c :: byte) = c"
  by (simp add: int_word_sint)

lemma uint_byte_of_int: "uint (word_of_int v :: byte) = v mod 256"
  by (simp add: uint_word_of_int)

lemma le16_value:
  assumes "0 \<le> v" "v \<le> 65535"
  shows "uint (word_of_int v :: byte) + 256 * uint (word_of_int (v div 256) :: byte) = v"
proof -
  have "v div 256 < 256" using assms by simp
  moreover have "0 \<le> v div 256" using assms by simp
  ultimately have "(v div 256) mod 256 = v div 256" by simp
  then show ?thesis by (simp add: uint_byte_of_int)
qed

lemma uint16_range: "0 \<le> uint (w :: 16 word) \<and> uint w \<le> 65535"
  using uint_lt2p [of w] by simp

text \<open>The check value of CRC-16/XMODEM: the checksum of the ASCII digits \<open>123456789\<close>.\<close>

lemma crc16xmodem_check_value:
  "crc16xmodem [0x31, 0x32, 0x33, 0x34, 0x35, 0x36, 0x37, 0x38, 0x39] = 0x31C3"
  by code_simp

section \<open>Building a frame\<close>

lemma build_packet_in_range:
  assumes "- 128 \<le> c" "c \<le> 127" "length payload \<le> 65535"
  shows "build_packet c payload =
    Inr (0x71 # (word_of_int c # word_of_int (int (length payload))
          # word_of_int (int (length payload) div 256) # 0x00 # payload)
        @ [word_of_int (uint (crc16xmodem (word_of_int c # word_of_int (int (length payload))
          # word_of_int (int (length payload) div 256) # 0x00 # payload))),
           word_of_int (uint (crc16xmodem (word_of_int c # word_of_int (int (length payload))
          # word_of_int (int (length payload) div 256) # 0x00 # payload)) div 256)])"
  using assms uint16_range
  by (simp add: build_packet_def pack_bHx_def pack_b_def pack_H_def Let_def)

text \<open>
  Claim C1. For a command in the range of a signed byte and a payload of at most 65535
  bytes, \<open>build_packet\<close> returns the byte 0x71, the command as one byte, the payload
  length as two bytes, low byte first, a zero byte, the payload, and two bytes, low byte
  first, holding the CRC-16 (polynomial 0x1021, initial value 0, most significant bit
  first) of everything between the start byte and the checksum.
\<close>

theorem build_packet_frame:
  assumes "- 128 \<le> c" and "c \<le> 127" and "length payload \<le> 65535"
  shows "\<exists>cb l0 l1 k0 k1.
           build_packet c payload = Inr ([0x71, cb, l0, l1, 0x00] @ payload @ [k0, k1])
         \<and> sint cb = c
         \<and> uint l0 + 256 * uint l1 = int (length payload)
         \<and> uint k0 + 256 * uint k1
             = uint (crc16_msb_first 0x1021 0x0000 ([cb, l0, l1, 0x00] @ payload))"
proof -
  let ?cb = "word_of_int c :: byte"
  let ?l0 = "word_of_int (int (length payload)) :: byte"
  let ?l1 = "word_of_int (int (length payload) div 256) :: byte"
  let ?k = "uint (crc16_msb_first 0x1021 0x0000 ([?cb, ?l0, ?l1, 0x00] @ payload))"
  have "build_packet c payload
          = Inr ([0x71, ?cb, ?l0, ?l1, 0x00] @ payload @ [word_of_int ?k, word_of_int (?k div 256)])"
    using build_packet_in_range [OF assms] by (simp add: crc16xmodem_def)
  moreover have "sint ?cb = c"
    using assms by (simp add: sint_byte_of_int)
  moreover have "uint ?l0 + 256 * uint ?l1 = int (length payload)"
    using assms by (intro le16_value) simp_all
  moreover have "uint (word_of_int ?k :: byte) + 256 * uint (word_of_int (?k div 256) :: byte) = ?k"
    using uint16_range by (intro le16_value) simp_all
  ultimately show ?thesis
    by blast
qed

theorem build_packet_frame_witness:
  "\<exists>cb l0 l1 k0 k1.
      build_packet 0x34 [0x2c, 0x08, 0x00, 0x00]
        = Inr ([0x71, cb, l0, l1, 0x00] @ [0x2c, 0x08, 0x00, 0x00] @ [k0, k1])
    \<and> sint cb = 0x34
    \<and> uint l0 + 256 * uint l1 = int (length [0x2c :: byte, 0x08, 0x00, 0x00])
    \<and> uint k0 + 256 * uint k1
        = uint (crc16_msb_first 0x1021 0x0000 ([cb, l0, l1, 0x00] @ [0x2c, 0x08, 0x00, 0x00]))"
  using build_packet_frame [of "0x34" "[0x2c, 0x08, 0x00, 0x00]"] by simp

section \<open>The baud divisor\<close>

lemma div_range_pos:
  assumes "(0::int) < t" "0 \<le> N" "N < 65 * t"
  shows "0 \<le> N div t \<and> N div t \<le> 64"
proof -
  have "N div t < 65"
  proof (rule ccontr)
    assume "\<not> N div t < 65"
    then have "t * 65 \<le> t * (N div t)"
      using assms(1) by (intro mult_left_mono) simp_all
    moreover have "t * (N div t) + N mod t = N"
      by simp
    moreover have "0 \<le> N mod t"
      using assms(1) by simp
    ultimately show False
      using assms(3) by linarith
  qed
  moreover have "0 \<le> N div t"
    using assms by (simp add: pos_imp_zdiv_nonneg_iff)
  ultimately show ?thesis by simp
qed

lemma numerator_pos:
  assumes "(0::int) < t" "0 \<le> r" "r < t"
  shows "0 \<le> r * 64 + t div 2" "r * 64 + t div 2 < 65 * t"
  using assms by linarith+

lemma numerator_neg:
  assumes "t < (0::int)" "r \<le> 0" "t < r"
  shows "0 \<le> - (r * 64 + t div 2)" "- (r * 64 + t div 2) < 65 * (- t)"
  using assms by linarith+

lemma frac_div_range:
  assumes "(t::int) \<noteq> 0"
  shows "0 \<le> ((c - c div t * t) * 64 + t div 2) div t
       \<and> ((c - c div t * t) * 64 + t div 2) div t \<le> 64"
proof -
  define r where "r = c - c div t * t"
  have r: "r = c mod t"
    unfolding r_def by (simp add: minus_div_mult_eq_mod)
  have "0 \<le> (r * 64 + t div 2) div t \<and> (r * 64 + t div 2) div t \<le> 64"
  proof (cases "0 < t")
    case True
    then have "0 \<le> r" "r < t" unfolding r by simp_all
    with True show ?thesis
      by (intro div_range_pos numerator_pos)
  next
    case False
    with assms have neg: "t < 0" by simp
    then have "r \<le> 0" "t < r" unfolding r by simp_all
    with neg have "0 \<le> (- (r * 64 + t div 2)) div (- t) \<and> (- (r * 64 + t div 2)) div (- t) \<le> 64"
      by (intro div_range_pos numerator_neg) simp_all
    then show ?thesis by (simp only: div_minus_minus)
  qed
  then show ?thesis unfolding r_def .
qed

lemma push_bit_8_add_or:
  assumes "(0::int) \<le> b" "b \<le> 64"
  shows "push_bit 8 a + b = push_bit 8 a OR b"
proof (rule disjunctive_add)
  fix n
  have "take_bit 8 b = b"
    using assms by (simp add: take_bit_int_eq_self)
  then have "bit b n \<Longrightarrow> n < 8"
    by (metis bit_take_bit_iff)
  then show "\<not> bit (push_bit 8 a) n \<or> \<not> bit b n"
    by (auto simp add: bit_push_bit_iff)
qed

lemma integerDivisor_spec_div:
  "integerDivisor_spec clock baudrate = clock div (16 * baudrate)"
  unfolding integerDivisor_spec_def by (rule floor_divide_of_int_eq)

lemma fractionalDivisor_spec_div:
  "fractionalDivisor_spec clock baudrate
     = ((clock - clock div (16 * baudrate) * (16 * baudrate)) * 64 + 16 * baudrate div 2)
         div (16 * baudrate)"
proof -
  let ?tmp = "16 * baudrate"
  have "real_of_int ((clock - clock div ?tmp * ?tmp) * 64) + real_of_int ?tmp / 2
      = real_of_int ((clock - clock div ?tmp * ?tmp) * 64 + ?tmp div 2)"
    by simp
  then show ?thesis
    unfolding fractionalDivisor_spec_def Let_def integerDivisor_spec_div
    by (simp only: floor_divide_of_int_eq)
qed

lemma calc_div_refines_spec:
  assumes "baudrate \<noteq> 0"
  shows "calc_div clock baudrate = Inr (divisor_register_spec clock baudrate)"
proof -
  from assms have "16 * baudrate \<noteq> 0" by simp
  from frac_div_range [OF this, of clock]
  have "0 \<le> fractionalDivisor_spec clock baudrate" "fractionalDivisor_spec clock baudrate \<le> 64"
    by (simp_all only: fractionalDivisor_spec_div)
  then have "push_bit 8 (integerDivisor_spec clock baudrate) + fractionalDivisor_spec clock baudrate
      = divisor_register_spec clock baudrate"
    unfolding divisor_register_spec_def by (rule push_bit_8_add_or)
  moreover have "calc_div clock baudrate
      = Inr (push_bit 8 (integerDivisor_spec clock baudrate) + fractionalDivisor_spec clock baudrate)"
    using assms by (simp add: calc_div_def Let_def integerDivisor_spec_div fractionalDivisor_spec_div)
  ultimately show ?thesis by simp
qed

text \<open>
  Claim C7. \<open>calc_div\<close> computes, in integer arithmetic, the register value of the
  specification's formula (for every clock and every baud rate other than zero, where
  Python raises); for a clock of 16000000 and a baud rate of 115200 the integer divisor is
  8, the fractional divisor 44, the register value 0x082C, and its four little-endian
  bytes are 2C 08 00 00, the payload written out in the handshake of \<open>nvdstool.py\<close>.
\<close>

theorem calc_div_exact:
  "(baudRate \<noteq> 0 \<longrightarrow> calc_div clockHz baudRate = Inr (divisor_register_spec clockHz baudRate))
   \<and> integerDivisor_spec 16000000 115200 = 8
   \<and> fractionalDivisor_spec 16000000 115200 = 44
   \<and> calc_div 16000000 115200 = Inr 0x082C
   \<and> pack_L 0x082C = Inr [0x2C, 0x08, 0x00, 0x00]
   \<and> nvdstool_clock_reg = [0x2C, 0x08, 0x00, 0x00]"
proof -
  have "integerDivisor_spec 16000000 115200 = 8"
    by (simp add: integerDivisor_spec_div)
  moreover have "fractionalDivisor_spec 16000000 115200 = 44"
    by (simp add: fractionalDivisor_spec_div)
  moreover have "calc_div 16000000 115200 = Inr 0x082C"
    by (simp add: calc_div_def)
  moreover have "pack_L 0x082C = Inr [0x2C, 0x08, 0x00, 0x00]"
    by (simp add: pack_L_def)
  ultimately show ?thesis
    using calc_div_refines_spec by (simp add: nvdstool_clock_reg_def)
qed

theorem calc_div_exact_witness:
  "(115200 :: int) \<noteq> 0
   \<and> calc_div 16000000 115200 = Inr (divisor_register_spec 16000000 115200)"
  using calc_div_exact [of 115200 16000000] by simp

section \<open>Key descriptions\<close>

lemma describe_never_a_string: "describe key \<noteq> Inr (PyStr label)"
  by (simp add: describe_def split: sum.splits)

text \<open>
  Claim C9. \<open>describe\<close> is meant to return the label of a key as a string, and
  \<open>Unknown\<close> for a key that \<open>fields\<close> does not hold. Evaluated at key 1 and at key 0,
  it returns the one-element tuple around the label instead of the label.
\<close>

theorem describe_returns_tuple:
  "describe 1 = Inr (PyTuple [PyStr ''Device address''])
   \<and> describe 1 \<noteq> Inr (PyStr ''Device address'')
   \<and> describe 0 = Inr (PyTuple [PyStr ''Unknown''])"
  by (simp add: describe_def dict_get_def fields_def)

section \<open>Reading a response\<close>

lemma take_rx_Nil [simp]: "take_rx n [] = ([], [])"
  by (cases n) simp_all

lemma take_rx_Quiet: "0 < n \<Longrightarrow> take_rx n (Quiet # evs) = ([], evs)"
  by (cases n) simp_all

lemma take_rx_Rx:
  "0 < n \<Longrightarrow> take_rx n (Rx b # evs) = (case take_rx (n - 1) evs of (bs, evs') \<Rightarrow> (b # bs, evs'))"
  by (cases n) simp_all

lemma take_rx_bytes: "take_rx (length bs) (map Rx bs @ evs) = (bs, evs)"
  by (induction bs) simp_all

lemma take_rx_length: "length (fst (take_rx n evs)) \<le> n"
  by (induction n evs rule: take_rx.induct) (auto split: prod.splits)

lemma take_rx_full:
  "take_rx n evs = (bs, evs') \<Longrightarrow> length bs = n \<Longrightarrow> evs = map Rx bs @ evs'"
  by (induction n evs arbitrary: bs evs' rule: take_rx.induct) (auto split: prod.splits)

lemma unpack_bHx_Inr_iff: "(\<exists>v. unpack_bHx h = Inr v) \<longleftrightarrow> length h = 4"
  by (cases h rule: unpack_bHx.cases) simp_all

lemma unpack_bHx_short: "length h \<noteq> 4 \<Longrightarrow> unpack_bHx h = Inl StructError"
  by (cases h rule: unpack_bHx.cases) simp_all

lemma read_packet_frame:
  assumes h: "unpack_bHx hdr = Inr (cmd, int (length data))"
    and c: "pack_H (uint (crc16xmodem (hdr @ data))) = Inr chk"
  shows "read_packet False (w\<lparr>rx := Rx 0x01 # Rx 0x71 # map Rx hdr @ map Rx data @ map Rx chk @ rest\<rparr>)
           = (Inr (Payload data), w\<lparr>rx := rest, ser_timeout := 0.5\<rparr>)"
proof -
  from h have "length hdr = 4"
    using unpack_bHx_Inr_iff [of hdr] by auto
  then have r4: "take_rx 4 (map Rx hdr @ map Rx data @ map Rx chk @ rest)
      = (hdr, map Rx data @ map Rx chk @ rest)"
    using take_rx_bytes [of hdr] by simp
  from c have "length chk = 2"
    by (auto simp add: pack_H_def split: if_splits)
  then have r2: "take_rx 2 (map Rx chk @ rest) = (chk, rest)"
    using take_rx_bytes [of chk] by simp
  show ?thesis
    by (simp add: read_packet_def ser_read_def take_rx_Rx r4 h take_rx_bytes r2 c)
qed

text \<open>
  Claim C2. For a command in the range of a signed byte and a payload of at most 65535
  bytes, \<open>build_packet\<close> succeeds; the four bytes after the start byte unpack to the
  command and the payload length; and \<open>read_packet\<close>, not in confirm-only mode, reading
  the sync byte 0x01 followed by the bytes of the packet, verifies the checksum and
  returns the payload, with nothing left to read.
\<close>

theorem read_packet_round_trip:
  assumes "- 128 \<le> c" and "c \<le> 127" and "length payload \<le> 65535"
  shows "\<exists>pkt. build_packet c payload = Inr pkt
           \<and> unpack_bHx (take 4 (drop 1 pkt)) = Inr (c, int (length payload))
           \<and> read_packet False (w\<lparr>rx := map Rx (0x01 # pkt)\<rparr>)
                = (Inr (Payload payload), w\<lparr>rx := [], ser_timeout := 0.5\<rparr>)"
proof -
  let ?hdr = "[word_of_int c, word_of_int (int (length payload)),
               word_of_int (int (length payload) div 256), 0x00] :: bytes"
  let ?k = "uint (crc16xmodem (?hdr @ payload))"
  let ?chk = "[word_of_int ?k, word_of_int (?k div 256)] :: bytes"
  let ?pkt = "0x71 # ?hdr @ payload @ ?chk"
  have pkt: "build_packet c payload = Inr ?pkt"
    using build_packet_in_range [OF assms] by simp
  have "uint (word_of_int (int (length payload)) :: byte)
          + 256 * uint (word_of_int (int (length payload) div 256) :: byte) = int (length payload)"
    using assms by (intro le16_value) simp_all
  then have hdr: "unpack_bHx ?hdr = Inr (c, int (length payload))"
    using assms by (simp add: sint_byte_of_int)
  have chk: "pack_H ?k = Inr ?chk"
    using uint16_range by (simp add: pack_H_def)
  have "read_packet False (w\<lparr>rx := Rx 0x01 # Rx 0x71 # map Rx ?hdr @ map Rx payload @ map Rx ?chk @ []\<rparr>)
          = (Inr (Payload payload), w\<lparr>rx := [], ser_timeout := 0.5\<rparr>)"
    using hdr chk by (rule read_packet_frame)
  then have "read_packet False (w\<lparr>rx := map Rx (0x01 # ?pkt)\<rparr>)
          = (Inr (Payload payload), w\<lparr>rx := [], ser_timeout := 0.5\<rparr>)"
    by simp
  with pkt hdr show ?thesis
    by simp
qed

theorem read_packet_round_trip_witness:
  "\<exists>pkt. build_packet 0x46 [0x00, 0x01, 0x00, 0x00] = Inr pkt
     \<and> unpack_bHx (take 4 (drop 1 pkt)) = Inr (0x46, int (length [0x00 :: byte, 0x01, 0x00, 0x00]))
     \<and> read_packet False
          (\<lparr>rx = [], tx = [], ser_timeout = 0.5, wall_clock = (\<lambda>n. 0), ticks = 0\<rparr>
             \<lparr>rx := map Rx (0x01 # pkt)\<rparr>)
        = (Inr (Payload [0x00, 0x01, 0x00, 0x00]),
           \<lparr>rx = [], tx = [], ser_timeout = 0.5, wall_clock = (\<lambda>n. 0), ticks = 0\<rparr>
             \<lparr>rx := [], ser_timeout := 0.5\<rparr>)"
  using read_packet_round_trip [of "0x46" "[0x00, 0x01, 0x00, 0x00]"
      "\<lparr>rx = [], tx = [], ser_timeout = 0.5, wall_clock = (\<lambda>n. 0), ticks = 0\<rparr>"]
  by simp

lemma read_packet_other_start:
  assumes "rx w = Rx 0x01 # Rx b # rest" and "b \<noteq> 0x03" and "b \<noteq> 0x04"
  shows "read_packet False w =
     (case take_rx 4 rest of (h, rest') \<Rightarrow>
        (case unpack_bHx h of Inl e \<Rightarrow> (Inl e, w\<lparr>rx := rest', ser_timeout := 0.5\<rparr>)
         | Inr (cmd, data_len) \<Rightarrow>
            if b \<noteq> 0x71 then (Inl (StartExpected [b]), w\<lparr>rx := rest', ser_timeout := 0.5\<rparr>)
            else (case ser_read (nat data_len) (w\<lparr>rx := rest', ser_timeout := 0.5\<rparr>) of (data, w5) \<Rightarrow>
                   (case ser_read 2 w5 of (chk, w6) \<Rightarrow>
                      if Inr chk \<noteq> pack_H (uint (crc16xmodem (h @ data))) then (Inl InvalidChecksum, w6)
                      else (Inr (Payload data), w6)))))"
  using assms
  by (simp add: read_packet_def ser_read_def take_rx_Rx Let_def split: prod.splits sum.splits)

text \<open>
  Claim C10. When the sync byte 0x01 is followed by a byte other than 0x03, 0x04 and 0x71,
  \<open>read_packet\<close> reads the four header bytes and unpacks them before it looks at the
  start byte: if four bytes arrive the error is the start-byte error, and whenever that
  error is raised exactly six bytes have been taken from the line. With fewer than four
  header bytes the unpacking fails first.
\<close>

theorem start_byte_checked_after_header:
  assumes "rx w = Rx 0x01 # Rx b # rest" and "b \<noteq> 0x03" and "b \<noteq> 0x04" and "b \<noteq> 0x71"
  shows "(rest = map Rx h @ rest' \<and> length h = 4 \<longrightarrow>
            read_packet False w = (Inl (StartExpected [b]), w\<lparr>rx := rest', ser_timeout := 0.5\<rparr>))
       \<and> (read_packet False w = (Inl (StartExpected e), w') \<longrightarrow>
            e = [b] \<and> (\<exists>h'. length h' = 4 \<and> rx w = Rx 0x01 # Rx b # map Rx h' @ rx w'))
       \<and> (length (fst (take_rx 4 rest)) < 4 \<longrightarrow> fst (read_packet False w) = Inl StructError)"
proof -
  obtain hd4 rest4 where t: "take_rx 4 rest = (hd4, rest4)"
    by (cases "take_rx 4 rest")
  have rp: "read_packet False w =
      (case unpack_bHx hd4 of Inl e \<Rightarrow> (Inl e, w\<lparr>rx := rest4, ser_timeout := 0.5\<rparr>)
       | Inr v \<Rightarrow> (Inl (StartExpected [b]), w\<lparr>rx := rest4, ser_timeout := 0.5\<rparr>))"
    using assms by (simp add: read_packet_other_start t split: sum.splits)
  have full: "read_packet False w = (Inl (StartExpected [b]), w\<lparr>rx := rest', ser_timeout := 0.5\<rparr>)"
    if "rest = map Rx h @ rest'" and "length h = 4"
  proof -
    from that have "take_rx 4 rest = (h, rest')"
      using take_rx_bytes [of h rest'] by simp
    with t have "hd4 = h" "rest4 = rest'" by simp_all
    moreover from that obtain v where "unpack_bHx h = Inr v"
      using unpack_bHx_Inr_iff [of h] by auto
    ultimately show ?thesis by (simp add: rp)
  qed
  have only: "e = [b] \<and> (\<exists>h'. length h' = 4 \<and> rx w = Rx 0x01 # Rx b # map Rx h' @ rx w')"
    if "read_packet False w = (Inl (StartExpected e), w')"
  proof (cases "unpack_bHx hd4")
    case (Inl err)
    then have "err = StructError"
      by (cases hd4 rule: unpack_bHx.cases) simp_all
    with Inl that show ?thesis by (simp add: rp)
  next
    case (Inr v)
    then have len: "length hd4 = 4"
      using unpack_bHx_Inr_iff [of hd4] by auto
    from Inr that have "e = [b]" and w': "w' = w\<lparr>rx := rest4, ser_timeout := 0.5\<rparr>"
      by (simp_all add: rp)
    moreover from t len have "rest = map Rx hd4 @ rest4"
      by (rule take_rx_full)
    ultimately show ?thesis
      using len assms(1) by auto
  qed
  have short: "fst (read_packet False w) = Inl StructError" if "length (fst (take_rx 4 rest)) < 4"
  proof -
    from that t have "length hd4 \<noteq> 4" by simp
    then show ?thesis by (simp add: rp unpack_bHx_short)
  qed
  show ?thesis
  proof (intro conjI impI)
    assume "rest = map Rx h @ rest' \<and> length h = 4"
    then show "read_packet False w = (Inl (StartExpected [b]), w\<lparr>rx := rest', ser_timeout := 0.5\<rparr>)"
      using full by simp
  next
    assume r: "read_packet False w = (Inl (StartExpected e), w')"
    from only [OF r] show "e = [b]" ..
    from only [OF r] show "\<exists>h'. length h' = 4 \<and> rx w = Rx 0x01 # Rx b # map Rx h' @ rx w'" ..
  next
    assume "length (fst (take_rx 4 rest)) < 4"
    then show "fst (read_packet False w) = Inl StructError"
      by (rule short)
  qed
qed

theorem start_byte_checked_after_header_witness:
  "rx \<lparr>rx = map Rx [0x01, 0x55, 0x10, 0x20, 0x30, 0x40, 0x50], tx = [], ser_timeout = 0.5,
        wall_clock = (\<lambda>n. 0), ticks = 0\<rparr>
     = Rx 0x01 # Rx 0x55 # map Rx [0x10, 0x20, 0x30, 0x40] @ [Rx 0x50]
   \<and> length [0x10 :: byte, 0x20, 0x30, 0x40] = 4
   \<and> read_packet False
        \<lparr>rx = map Rx [0x01, 0x55, 0x10, 0x20, 0x30, 0x40, 0x50], tx = [], ser_timeout = 0.5,
         wall_clock = (\<lambda>n. 0), ticks = 0\<rparr>
      = (Inl (StartExpected [0x55]),
         \<lparr>rx = [Rx 0x50], tx = [], ser_timeout = 0.5, wall_clock = (\<lambda>n. 0), ticks = 0\<rparr>)"
  using start_byte_checked_after_header
    [of "\<lparr>rx = map Rx [0x01, 0x55, 0x10, 0x20, 0x30, 0x40, 0x50], tx = [], ser_timeout = 0.5,
          wall_clock = (\<lambda>n. 0), ticks = 0\<rparr>" "0x55" "map Rx [0x10, 0x20, 0x30, 0x40, 0x50]"
       "[0x10, 0x20, 0x30, 0x40]" "[Rx 0x50]", THEN conjunct1]
  by simp

section \<open>Failure codes\<close>

lemma request_sent:
  assumes "build_packet cmd data = Inr pkt"
  shows "request cmd data only_confirm w = read_packet only_confirm (w\<lparr>tx := tx w @ pkt\<rparr>)"
  using assms by (simp add: request_def send_command_def ser_write_def)

lemma build_packet_program_empty:
  "build_packet 0x45 [] = Inr [0x71, 0x45, 0x00, 0x00, 0x00, 0xd9, 0xd2]"
  by code_simp

text \<open>
  Claim C5, as the code has it. A command method writes one packet and reads one
  response. When the device answers with the sync byte 0x02, or with any other sync byte
  that is not 0x01, the call raises an error. When it answers 0x01 and then the result
  byte 0x04, the call (not confirm-only) returns the integer 4 as its value and raises
  nothing, as it returns 3 for the result byte 0x03. In every case one packet has been
  written and only the bytes named have been read: nothing is retried.
\<close>

theorem failure_codes:
  assumes "build_packet cmd data = Inr pkt"
  shows "(rx w = Rx 0x02 # rest \<longrightarrow>
            request cmd data only_confirm w
              = (Inl (SyncExpected [0x02]), w\<lparr>rx := rest, tx := tx w @ pkt\<rparr>))
       \<and> (rx w = Rx 0x01 # Rx 0x04 # rest \<longrightarrow>
            request cmd data False w
              = (Inr (ResultCode 4), w\<lparr>rx := rest, tx := tx w @ pkt, ser_timeout := 5\<rparr>))
       \<and> (rx w = Rx s # rest \<and> s \<noteq> 0x01 \<longrightarrow>
            request cmd data only_confirm w
              = (Inl (SyncExpected [s]), w\<lparr>rx := rest, tx := tx w @ pkt\<rparr>))
       \<and> (rx w = Rx 0x01 # Rx 0x03 # rest \<longrightarrow>
            request cmd data False w
              = (Inr (ResultCode 3), w\<lparr>rx := rest, tx := tx w @ pkt, ser_timeout := 5\<rparr>))"
  by (simp add: request_sent [OF assms] read_packet_def ser_read_def take_rx_Rx)

theorem failure_codes_witness:
  "build_packet 0x45 [] = Inr [0x71, 0x45, 0x00, 0x00, 0x00, 0xd9, 0xd2]
   \<and> request 0x45 [] False
        \<lparr>rx = [Rx 0x01, Rx 0x04], tx = [], ser_timeout = 0.5, wall_clock = (\<lambda>n. 0), ticks = 0\<rparr>
      = (Inr (ResultCode 4),
         \<lparr>rx = [], tx = [0x71, 0x45, 0x00, 0x00, 0x00, 0xd9, 0xd2], ser_timeout = 5,
          wall_clock = (\<lambda>n. 0), ticks = 0\<rparr>)"
  using failure_codes [OF build_packet_program_empty,
      where w = "\<lparr>rx = [Rx 0x01, Rx 0x04], tx = [], ser_timeout = 0.5, wall_clock = (\<lambda>n. 0),
                 ticks = 0\<rparr>" and rest = "[]",
      THEN conjunct2, THEN conjunct1]
  by (simp add: build_packet_program_empty)

text \<open>
  The claim as stated fails: \<open>sector_erase(1)\<close> answered by 0x01 0x04 returns 4.
\<close>

theorem failure_code_returned_counterexample:
  "fst (sector_erase 1
     \<lparr>rx = [Rx 0x01, Rx 0x04], tx = [], ser_timeout = 0.5, wall_clock = (\<lambda>n. 0), ticks = 0\<rparr>)
   = Inr (ResultCode 4)"
proof -
  have "pack_L 1 = Inr [0x01, 0x00, 0x00, 0x00]"
    by (simp add: pack_L_def)
  moreover obtain pkt where "build_packet 0x42 [0x01, 0x00, 0x00, 0x00] = Inr pkt"
    using build_packet_in_range [of "0x42" "[0x01, 0x00, 0x00, 0x00]"] by simp
  ultimately show ?thesis
    by (simp add: sector_erase_def request_sent read_packet_def ser_read_def take_rx_Rx)
qed

section \<open>Short reads\<close>

lemma take_rx_1_empty: "fst (take_rx 1 evs) = [] \<longleftrightarrow> evs = [] \<or> (\<exists>r. evs = Quiet # r)"
proof (cases evs)
  case Nil
  then show ?thesis by simp
next
  case (Cons ev r)
  then show ?thesis
    by (cases ev) (simp_all add: take_rx_Rx take_rx_Quiet split: prod.splits)
qed

lemma unpack_cbHx_Inr_iff: "(\<exists>v. unpack_cbHx h = Inr v) \<longleftrightarrow> length h = 5"
  by (cases h rule: unpack_cbHx.cases) simp_all

lemma unpack_cbHx_short: "length h \<noteq> 5 \<Longrightarrow> unpack_cbHx h = Inl StructError"
  by (cases h rule: unpack_cbHx.cases) simp_all

lemma take_rx_2_short:
  "length (fst (take_rx 2 evs)) < 2 \<Longrightarrow> Inr (fst (take_rx 2 evs)) \<noteq> pack_H (uint (k :: 16 word))"
  using uint16_range [of k] by (auto simp add: pack_H_def)

lemma read_packet_writes_nothing: "tx (snd (read_packet only_confirm w)) = tx w"
  by (auto simp add: read_packet_def ser_read_def Let_def split: prod.splits sum.splits)

lemma nvdstool_read_packet_writes_nothing: "tx (snd (nvdstool_read_packet w)) = tx w"
  by (auto simp add: nvdstool_read_packet_def ser_read_def Let_def split: prod.splits sum.splits)

lemma read_packet_short_sync:
  assumes "fst (take_rx 1 (rx w)) = []"
  shows "fst (read_packet only_confirm w) = Inl (SyncExpected [])"
proof -
  obtain s r where "take_rx 1 (rx w) = (s, r)"
    by (cases "take_rx 1 (rx w)")
  with assms show ?thesis
    by (simp add: read_packet_def ser_read_def)
qed

lemma read_packet_short_start:
  assumes "rx w = Rx 0x01 # r1" and "fst (take_rx 1 r1) = []"
  shows "fst (read_packet False w) = Inl NoStartByte"
proof -
  obtain s r where "take_rx 1 r1 = (s, r)"
    by (cases "take_rx 1 r1")
  with assms show ?thesis
    by (simp add: read_packet_def ser_read_def take_rx_Rx)
qed

lemma read_packet_short_header:
  assumes "rx w = Rx 0x01 # Rx b # r2" and "b \<noteq> 0x03" and "b \<noteq> 0x04"
    and "length (fst (take_rx 4 r2)) < 4"
  shows "fst (read_packet False w) = Inl StructError"
proof -
  obtain h r where t: "take_rx 4 r2 = (h, r)"
    by (cases "take_rx 4 r2")
  with assms(4) have "unpack_bHx h = Inl StructError"
    by (simp add: unpack_bHx_short)
  with t show ?thesis
    by (simp add: read_packet_other_start [OF assms(1-3)])
qed

lemma read_packet_short_checksum:
  assumes "rx w = Rx 0x01 # Rx 0x71 # map Rx h @ r3" and "unpack_bHx h = Inr (cmd, n)"
    and "take_rx (nat n) r3 = (data, r4)" and "length (fst (take_rx 2 r4)) < 2"
  shows "fst (read_packet False w) = Inl InvalidChecksum"
proof -
  from assms(2) have "length h = 4"
    using unpack_bHx_Inr_iff [of h] by auto
  then have r4: "take_rx 4 (map Rx h @ r3) = (h, r3)"
    using take_rx_bytes [of h] by simp
  obtain chk r5 where c: "take_rx 2 r4 = (chk, r5)"
    by (cases "take_rx 2 r4")
  with assms(4) have "Inr chk \<noteq> pack_H (uint (crc16xmodem (h @ data)))"
    using take_rx_2_short [of r4] by simp
  with c show ?thesis
    using assms(1-3) by (simp add: read_packet_def ser_read_def take_rx_Rx r4)
qed

lemma nvdstool_short_sync:
  assumes "fst (take_rx 1 (rx w)) = []"
  shows "fst (nvdstool_read_packet w) = Inl (SyncExpected [])"
proof -
  obtain s r where "take_rx 1 (rx w) = (s, r)"
    by (cases "take_rx 1 (rx w)")
  with assms show ?thesis
    by (simp add: nvdstool_read_packet_def ser_read_def)
qed

lemma nvdstool_no_header:
  assumes "rx w = Rx 0x01 # r1" and "fst (take_rx 5 r1) = []"
  shows "fst (nvdstool_read_packet w) = Inr NoReply"
proof -
  obtain h r where "take_rx 5 r1 = (h, r)"
    by (cases "take_rx 5 r1")
  with assms show ?thesis
    by (simp add: nvdstool_read_packet_def ser_read_def take_rx_Rx)
qed

lemma nvdstool_short_header:
  assumes "rx w = Rx 0x01 # r1" and "0 < length (fst (take_rx 5 r1))"
    and "length (fst (take_rx 5 r1)) < 5"
  shows "fst (nvdstool_read_packet w) = Inl StructError"
proof -
  obtain h r where t: "take_rx 5 r1 = (h, r)"
    by (cases "take_rx 5 r1")
  with assms(2,3) have "h \<noteq> []" "unpack_cbHx h = Inl StructError"
    by (simp_all add: unpack_cbHx_short)
  with t show ?thesis
    using assms(1) by (simp add: nvdstool_read_packet_def ser_read_def take_rx_Rx)
qed

lemma nvdstool_short_checksum:
  assumes "rx w = Rx 0x01 # map Rx h @ r3" and "unpack_cbHx h = Inr (0x71, cmd, n)"
    and "take_rx (nat n) r3 = (data, r4)" and "length (fst (take_rx 2 r4)) < 2"
  shows "fst (nvdstool_read_packet w) = Inl InvalidChecksum"
proof -
  from assms(2) have len: "length h = 5"
    using unpack_cbHx_Inr_iff [of h] by auto
  then have r5: "take_rx 5 (map Rx h @ r3) = (h, r3)"
    using take_rx_bytes [of h] by simp
  from len have ne: "h \<noteq> []" by auto
  obtain chk r6 where c: "take_rx 2 r4 = (chk, r6)"
    by (cases "take_rx 2 r4")
  with assms(4) have "Inr chk \<noteq> pack_H (uint (crc16xmodem (tl h @ data)))"
    using take_rx_2_short [of r4] by simp
  with c show ?thesis
    using assms(1-3) ne by (simp add: nvdstool_read_packet_def ser_read_def take_rx_Rx r5)
qed

text \<open>
  A payload read that comes back short is not checked on its own in either tool: the
  frame is accepted when the two bytes read next match the checksum of what did arrive.
\<close>

lemma short_payload_read_unnoticed:
  assumes "unpack_bHx h = Inr (cmd, n)" and "0 < n"
    and "pack_H (uint (crc16xmodem h)) = Inr chk"
  shows "fst (read_packet False (w\<lparr>rx := Rx 0x01 # Rx 0x71 # map Rx h @ Quiet # map Rx chk\<rparr>))
           = Inr (Payload [])"
proof -
  from assms(1) have "length h = 4"
    using unpack_bHx_Inr_iff [of h] by auto
  then have r4: "take_rx 4 (map Rx h @ Quiet # map Rx chk) = (h, Quiet # map Rx chk)"
    using take_rx_bytes [of h] by simp
  from assms(3) have "length chk = 2"
    by (auto simp add: pack_H_def split: if_splits)
  then have r2: "take_rx 2 (map Rx chk) = (chk, [])"
    using take_rx_bytes [of chk "[]"] by simp
  from assms(2) have rq: "take_rx (nat n) (Quiet # map Rx chk) = ([], map Rx chk)"
    by (simp add: take_rx_Quiet)
  show ?thesis
    by (simp add: read_packet_def ser_read_def take_rx_Rx r4 assms rq r2)
qed

text \<open>
  Claim C6, as the code has it. In \<open>read_packet\<close> of \<open>qntool.py\<close> an empty sync read,
  an empty start-byte read, a header read of fewer than four bytes and a checksum read of
  fewer than two bytes each raise an error. In \<open>read_packet\<close> of \<open>nvdstool.py\<close> an empty
  sync read, a header read of one to four bytes and a short checksum read raise an error,
  but a header read of no bytes returns \<open>None\<close>. Neither function writes to the line, so
  nothing is retried.
\<close>

theorem short_reads:
  "(fst (take_rx 1 (rx w)) = [] \<longrightarrow> fst (read_packet only_confirm w) = Inl (SyncExpected []))
 \<and> (rx w = Rx 0x01 # r1 \<and> fst (take_rx 1 r1) = [] \<longrightarrow> fst (read_packet False w) = Inl NoStartByte)
 \<and> (rx w = Rx 0x01 # Rx b # r2 \<and> b \<noteq> 0x03 \<and> b \<noteq> 0x04 \<and> length (fst (take_rx 4 r2)) < 4
       \<longrightarrow> fst (read_packet False w) = Inl StructError)
 \<and> (rx w = Rx 0x01 # Rx 0x71 # map Rx h @ r3 \<and> unpack_bHx h = Inr (cmd, n)
       \<and> take_rx (nat n) r3 = (data, r4) \<and> length (fst (take_rx 2 r4)) < 2
       \<longrightarrow> fst (read_packet False w) = Inl InvalidChecksum)
 \<and> tx (snd (read_packet only_confirm w)) = tx w
 \<and> (fst (take_rx 1 (rx w)) = [] \<longrightarrow> fst (nvdstool_read_packet w) = Inl (SyncExpected []))
 \<and> (rx w = Rx 0x01 # r1 \<and> fst (take_rx 5 r1) = [] \<longrightarrow> fst (nvdstool_read_packet w) = Inr NoReply)
 \<and> (rx w = Rx 0x01 # r1 \<and> 0 < length (fst (take_rx 5 r1)) \<and> length (fst (take_rx 5 r1)) < 5
       \<longrightarrow> fst (nvdstool_read_packet w) = Inl StructError)
 \<and> (rx w = Rx 0x01 # map Rx h' @ r3' \<and> unpack_cbHx h' = Inr (0x71, cmd', n')
       \<and> take_rx (nat n') r3' = (data', r4') \<and> length (fst (take_rx 2 r4')) < 2
       \<longrightarrow> fst (nvdstool_read_packet w) = Inl InvalidChecksum)
 \<and> tx (snd (nvdstool_read_packet w)) = tx w"
  using read_packet_short_sync read_packet_short_start read_packet_short_header
    read_packet_short_checksum read_packet_writes_nothing nvdstool_short_sync nvdstool_no_header
    nvdstool_short_header nvdstool_short_checksum nvdstool_read_packet_writes_nothing
  by (intro conjI impI; (elim conjE)?; assumption?)

theorem short_reads_witness:
  "fst (read_packet False
     \<lparr>rx = [], tx = [], ser_timeout = 0.5, wall_clock = (\<lambda>n. 0), ticks = 0\<rparr>)
     = Inl (SyncExpected [])
 \<and> fst (read_packet False
     \<lparr>rx = [Rx 0x01], tx = [], ser_timeout = 0.5, wall_clock = (\<lambda>n. 0), ticks = 0\<rparr>)
     = Inl NoStartByte
 \<and> fst (nvdstool_read_packet
     \<lparr>rx = [Rx 0x01], tx = [], ser_timeout = 0.5, wall_clock = (\<lambda>n. 0), ticks = 0\<rparr>)
     = Inr NoReply
 \<and> fst (read_packet False
     \<lparr>rx = [Rx 0x01, Rx 0x71, Rx 0x46], tx = [], ser_timeout = 0.5, wall_clock = (\<lambda>n. 0), ticks = 0\<rparr>)
     = Inl StructError
 \<and> fst (nvdstool_read_packet
     \<lparr>rx = [Rx 0x01, Rx 0x71, Rx 0x46], tx = [], ser_timeout = 0.5, wall_clock = (\<lambda>n. 0), ticks = 0\<rparr>)
     = Inl StructError
 \<and> fst (read_packet False
     \<lparr>rx = [Rx 0x01, Rx 0x71, Rx 0x46, Rx 0x00, Rx 0x00, Rx 0x00, Rx 0x99], tx = [],
      ser_timeout = 0.5, wall_clock = (\<lambda>n. 0), ticks = 0\<rparr>)
     = Inl InvalidChecksum
 \<and> fst (nvdstool_read_packet
     \<lparr>rx = [Rx 0x01, Rx 0x71, Rx 0x46, Rx 0x00, Rx 0x00, Rx 0x00, Rx 0x99], tx = [],
      ser_timeout = 0.5, wall_clock = (\<lambda>n. 0), ticks = 0\<rparr>)
     = Inl InvalidChecksum"
  using
    short_reads [where w = "\<lparr>rx = [], tx = [], ser_timeout = 0.5, wall_clock = (\<lambda>n. 0), ticks = 0\<rparr>"
      and only_confirm = False]
    short_reads [where w = "\<lparr>rx = [Rx 0x01], tx = [], ser_timeout = 0.5, wall_clock = (\<lambda>n. 0), ticks = 0\<rparr>"
      and ?r1.0 = "[]"]
    short_reads [where w = "\<lparr>rx = [Rx 0x01, Rx 0x71, Rx 0x46], tx = [], ser_timeout = 0.5,
        wall_clock = (\<lambda>n. 0), ticks = 0\<rparr>"
      and ?r1.0 = "[Rx 0x71, Rx 0x46]" and b = "0x71" and ?r2.0 = "[Rx 0x46]"]
    short_reads [where w = "\<lparr>rx = [Rx 0x01, Rx 0x71, Rx 0x46, Rx 0x00, Rx 0x00, Rx 0x00, Rx 0x99],
        tx = [], ser_timeout = 0.5, wall_clock = (\<lambda>n. 0), ticks = 0\<rparr>"
      and h = "[0x46, 0x00, 0x00, 0x00]" and ?r3.0 = "[Rx 0x99]" and cmd = "0x46" and n = 0
      and data = "[]" and ?r4.0 = "[Rx 0x99]"
      and h' = "[0x71, 0x46, 0x00, 0x00, 0x00]" and ?r3'.0 = "[Rx 0x99]" and cmd' = "0x46" and n' = 0
      and data' = "[]" and ?r4'.0 = "[Rx 0x99]"]
  by (simp add: take_rx_Rx)

text \<open>
  The claim as stated fails: when only the sync byte arrives, \<open>read_packet\<close> of
  \<open>nvdstool.py\<close> returns \<open>None\<close>.
\<close>

theorem header_timeout_returns_none_counterexample:
  "fst (nvdstool_read_packet
     \<lparr>rx = [Rx 0x01], tx = [], ser_timeout = 0.5, wall_clock = (\<lambda>n. 0), ticks = 0\<rparr>)
   = Inr NoReply"
  by (simp add: nvdstool_read_packet_def ser_read_def take_rx_Rx)

section \<open>The NVDS codec\<close>

lemma pad_count: "(if n mod 4 \<noteq> 0 then xs @ replicate (4 - n mod 4) (x::'a) else xs)
    = xs @ replicate ((4 - n mod 4) mod 4) x"
  by (cases "n mod 4 = 0") simp_all

lemma pack_BBH_entry:
  assumes "0 \<le> key" "key \<le> 255" "length val \<le> 65535"
  shows "pack_BBH key 6 (int (length val))
    = Inr [word_of_int key, 0x06, word_of_int (int (length val)), word_of_int (int (length val) div 256)]"
  using assms by (simp add: pack_BBH_def pack_B_def pack_H_def)

lemma dumps_loop_entries:
  assumes "\<forall>item \<in> set items. valid_item item"
  shows "dumps_loop data items = Inr (data @ concat (map nvds_entry items))"
  using assms
proof (induction items arbitrary: data)
  case Nil
  then show ?case by simp
next
  case (Cons item items)
  obtain key val where item: "item = (key, val)" by (cases item)
  with Cons.prems have v: "0 \<le> key" "key \<le> 255" "length val \<le> 65535"
    by (simp_all add: valid_item_def)
  from Cons.prems have rest: "\<forall>item \<in> set items. valid_item item" by simp
  show ?case
    by (simp add: item pack_BBH_entry [OF v] Let_def pad_count Cons.IH [OF rest] nvds_entry_def)
qed

lemma length_entries:
  "length (nvds_signature @ concat (map nvds_entry items)) = content_length items"
  by (induction items) (auto simp add: nvds_signature_def content_length_def nvds_entry_def)

lemma dumps_content:
  assumes "\<forall>item \<in> set items. valid_item item"
  shows "dumps items = Inr (nvds_signature @ concat (map nvds_entry items)
            @ replicate (4096 - content_length items) 0xff)"
proof -
  have "int (content_length items) \<le> 4096 \<or> 4096 - content_length items = 0"
    by linarith
  then show ?thesis
    unfolding dumps_def dumps_loop_entries [OF assms]
    by (auto simp add: length_entries [simplified] nat_diff_distrib')
qed

lemma unpack_BBH_entry_header:
  assumes "0 \<le> key" "key \<le> 255" "length val \<le> 65535"
  shows "unpack_BBH [word_of_int key, 0x06, word_of_int (int (length val)),
                     word_of_int (int (length val) div 256)] = Inr (key, 6, int (length val))"
proof -
  have "uint (word_of_int (int (length val)) :: byte)
          + 256 * uint (word_of_int (int (length val) div 256) :: byte) = int (length val)"
    using assms by (intro le16_value) simp_all
  moreover have "uint (word_of_int key :: byte) = key"
    using assms by (simp add: uint_byte_of_int)
  ultimately show ?thesis by simp
qed

lemma pad_nonzero: "int n mod 4 \<noteq> 0 \<Longrightarrow> nat (4 - int n mod 4) = (4 - n mod 4) mod 4"
proof -
  assume "int n mod 4 \<noteq> 0"
  have i: "int n mod 4 = int (n mod 4)"
    by (simp add: zmod_int)
  have "n mod 4 < 4" by simp
  then have "nat (4 - int (n mod 4)) = 4 - n mod 4"
    by linarith
  moreover from \<open>int n mod 4 \<noteq> 0\<close> i have "0 < n mod 4" by simp
  then have "(4 - n mod 4) mod 4 = 4 - n mod 4"
    by simp
  ultimately show ?thesis
    by (simp only: i)
qed

lemma pad_zero: "int n mod 4 = 0 \<Longrightarrow> (4 - n mod 4) mod 4 = 0"
  by presburger

lemma skip_padding:
  "(if int n mod 4 \<noteq> 0 then drop (nat (4 - int n mod 4)) (replicate ((4 - n mod 4) mod 4) x @ rest)
    else replicate ((4 - n mod 4) mod 4) x @ rest) = rest"
  by (cases "int n mod 4 = 0") (simp_all add: pad_nonzero pad_zero)

lemma loads_loop_step:
  assumes h: "unpack_BBH hdr = Inr (key, 6, int (length val))" and l: "length hdr = 4"
  shows "loads_loop vals (hdr @ val @ replicate ((4 - length val mod 4) mod 4) 0xff @ rest)
           = loads_loop (vals(key \<mapsto> val)) rest"
  using l by (subst loads_loop.simps) (simp add: h Let_def pad_nonzero pad_zero)

lemma loads_loop_entry:
  assumes "valid_item (key, val)"
  shows "loads_loop vals (nvds_entry (key, val) @ rest) = loads_loop (vals(key \<mapsto> val)) rest"
proof -
  from assms have v: "0 \<le> key" "key \<le> 255" "length val \<le> 65535"
    by (simp_all add: valid_item_def)
  let ?hdr = "[word_of_int key, 0x06, word_of_int (int (length val)),
               word_of_int (int (length val) div 256)] :: bytes"
  have "loads_loop vals (?hdr @ val @ replicate ((4 - length val mod 4) mod 4) 0xff @ rest)
          = loads_loop (vals(key \<mapsto> val)) rest"
    by (rule loads_loop_step [OF unpack_BBH_entry_header [OF v]]) simp
  then show ?thesis
    by (simp add: nvds_entry_def)
qed

lemma loads_loop_sentinel:
  assumes "4 \<le> n"
  shows "loads_loop vals (replicate n 0xff) = Inr vals"
proof -
  have "replicate 4 (0xff :: byte) = [0xff, 0xff, 0xff, 0xff]"
    by (simp add: numeral_eq_Suc)
  with assms have "take 4 (replicate n (0xff :: byte)) = [0xff, 0xff, 0xff, 0xff]"
    by (simp add: min_absorb1)
  then show ?thesis
    by (subst loads_loop.simps) simp
qed

lemma loads_loop_entries:
  assumes "\<forall>item \<in> set items. valid_item item" and "distinct (map fst items)" and "4 \<le> n"
  shows "loads_loop vals (concat (map nvds_entry items) @ replicate n 0xff)
           = Inr (vals ++ map_of items)"
  using assms(1,2)
proof (induction items arbitrary: vals)
  case Nil
  then show ?case by (simp add: loads_loop_sentinel [OF assms(3)])
next
  case (Cons item items)
  obtain key val where item: "item = (key, val)" by (cases item)
  with Cons.prems have v: "valid_item (key, val)" and fresh: "key \<notin> fst ` set items"
    and rest: "\<forall>item \<in> set items. valid_item item" "distinct (map fst items)"
    by simp_all
  from fresh have none: "map_of items key = None"
    by (simp add: map_of_eq_None_iff)
  have "loads_loop vals (concat (map nvds_entry (item # items)) @ replicate n 0xff)
      = loads_loop (vals(key \<mapsto> val)) (concat (map nvds_entry items) @ replicate n 0xff)"
    using loads_loop_entry [OF v] by (simp add: item)
  also have "\<dots> = Inr (vals(key \<mapsto> val) ++ map_of items)"
    by (rule Cons.IH [OF rest])
  also have "vals(key \<mapsto> val) ++ map_of items = vals ++ map_of (item # items)"
    unfolding item using none
    by (auto simp add: map_add_def fun_eq_iff split: option.splits)
  finally show ?case .
qed

lemma loads_dumps:
  assumes "\<forall>item \<in> set items. valid_item item" and "distinct (map fst items)"
    and "content_length items + 4 \<le> 4096"
  shows "\<exists>block. dumps items = Inr block \<and> length block = 4096
           \<and> loads block = Inr (map_of items)"
proof -
  let ?block = "nvds_signature @ concat (map nvds_entry items)
                  @ replicate (4096 - content_length items) 0xff"
  from assms(3) have "4 \<le> 4096 - content_length items" by simp
  from loads_loop_entries [OF assms(1,2) this, of Map.empty]
  have "loads ?block = Inr (map_of items)"
    by (simp add: loads_def nvds_signature_def)
  moreover have "length ?block = 4096"
    using length_entries [of items] assms(3) by simp
  ultimately show ?thesis
    using dumps_content [OF assms(1)] by blast
qed

lemma content_length_aligned:
  assumes "\<forall>(key, val) \<in> set items. length val mod 4 = 0"
  shows "content_length items = 4 + 4 * length items + (\<Sum>(key, val) \<leftarrow> items. length val)"
  using assms by (induction items) (auto simp add: content_length_def)

lemma value_length_le_total:
  assumes "(key, val) \<in> set items"
  shows "length val \<le> (\<Sum>(key, val) \<leftarrow> items. length val)"
  using assms by (induction items) auto

text \<open>
  Claim C3. A mapping with at most 19 distinct keys, each an unsigned byte other than
  0xFF, whose values have lengths that are multiples of four and add up to at most 4000
  bytes, is serialized by \<open>dumps\<close> to a block of 4096 bytes that \<open>loads\<close> parses back
  to the same mapping.
\<close>

theorem nvds_round_trip:
  assumes "length items \<le> 19" and "distinct (map fst items)"
    and "\<forall>(key, val) \<in> set items. 0 \<le> key \<and> key \<le> 255 \<and> key \<noteq> 0xff \<and> length val mod 4 = 0"
    and "(\<Sum>(key, val) \<leftarrow> items. length val) \<le> 4000"
  shows "\<exists>block. dumps items = Inr block \<and> length block = 4096
           \<and> loads block = Inr (map_of items)"
proof -
  have "valid_item item" if "item \<in> set items" for item
  proof -
    obtain key val where item: "item = (key, val)" by (cases item)
    with that assms(3) have "0 \<le> key" "key \<le> 255" by auto
    moreover from that item assms(4) have "length val \<le> 4000"
      using value_length_le_total [of key val items] by simp
    ultimately show ?thesis by (simp add: item valid_item_def)
  qed
  then have valid: "\<forall>item \<in> set items. valid_item item" by blast
  from assms(3) have "\<forall>(key, val) \<in> set items. length val mod 4 = 0" by auto
  then have "content_length items = 4 + 4 * length items + (\<Sum>(key, val) \<leftarrow> items. length val)"
    by (rule content_length_aligned)
  with assms(1,4) have "content_length items + 4 \<le> 4096" by simp
  with valid assms(2) show ?thesis by (rule loads_dumps)
qed

theorem nvds_round_trip_witness:
  "\<exists>block. dumps [(1, [0x11, 0x22, 0x33, 0x44]), (2, [])] = Inr block \<and> length block = 4096
     \<and> loads block = Inr (map_of [(1, [0x11, 0x22, 0x33, 0x44]), (2, [])])"
  using nvds_round_trip [of "[(1, [0x11, 0x22, 0x33, 0x44]), (2, [])]"] by simp

lemma padded_block:
  assumes "length c = n"
  shows "length (c @ replicate (4096 - n) x) = max 4096 n"
    and "take n (c @ replicate (4096 - n) x) = c"
    and "drop n (c @ replicate (4096 - n) x) = replicate (4096 - n) x"
  using assms by auto

text \<open>
  Claim C4, as the code has it. For keys that fit an unsigned byte and values of at most
  65535 bytes, \<open>dumps\<close> never fails: it returns the signature and the entries, followed
  by 0xFF up to 4096 bytes when they are shorter than that, and by nothing when they are
  longer. The block has 4096 bytes or the length of the content, whichever is larger.
\<close>

theorem dumps_padding:
  assumes "\<forall>(key, val) \<in> set items. 0 \<le> key \<and> key \<le> 255 \<and> length val \<le> 65535"
  shows "\<exists>block. dumps items = Inr block
           \<and> length block = max 4096 (content_length items)
           \<and> take (content_length items) block = nvds_signature @ concat (map nvds_entry items)
           \<and> drop (content_length items) block = replicate (4096 - content_length items) 0xff"
proof -
  let ?content = "nvds_signature @ concat (map nvds_entry items)"
  from assms have "\<forall>item \<in> set items. valid_item item"
    by (auto simp add: valid_item_def)
  then have "dumps items = Inr (?content @ replicate (4096 - content_length items) 0xff)"
    using dumps_content [of items] by simp
  moreover have "length ?content = content_length items"
    by (rule length_entries)
  ultimately show ?thesis
    using padded_block [of ?content "content_length items" "0xff :: byte"] by blast
qed

theorem dumps_padding_witness:
  "\<exists>block. dumps [(2, [0x51, 0x4e, 0x00])] = Inr block
     \<and> length block = max 4096 (content_length [(2, [0x51, 0x4e, 0x00])])
     \<and> take (content_length [(2, [0x51, 0x4e, 0x00])]) block
         = nvds_signature @ concat (map nvds_entry [(2, [0x51, 0x4e, 0x00])])
     \<and> drop (content_length [(2, [0x51, 0x4e, 0x00])]) block
         = replicate (4096 - content_length [(2, [0x51, 0x4e, 0x00])]) 0xff"
  using dumps_padding [of "[(2, [0x51, 0x4e, 0x00])]"] by simp

text \<open>
  The claim as stated fails: one value of 4096 bytes gives a block of 4104 bytes, and no
  error.
\<close>

theorem dumps_oversize_counterexample:
  "dumps [(1, replicate 4096 0x00)]
     = Inr (nvds_signature @ [0x01, 0x06, 0x00, 0x10] @ replicate 4096 0x00)
   \<and> length (nvds_signature @ [0x01, 0x06, 0x00, 0x10] @ replicate 4096 (0x00 :: byte)) = 4104"
proof -
  have "\<forall>item \<in> set [(1 :: int, replicate 4096 (0x00 :: byte))]. valid_item item"
    by (simp add: valid_item_def)
  from dumps_content [OF this] show ?thesis
    by (simp add: nvds_entry_def content_length_def nvds_signature_def)
qed

section \<open>The low-baud loop of the handshake\<close>

lemma connect_sync_start:
  "connect_sync timeout w
     = sync_loop timeout (wall_clock w (ticks w)) (w\<lparr>ser_timeout := 0.02, ticks := Suc (ticks w)\<rparr>)"
  by (simp add: connect_sync_def time_time_def)

lemma take_rx_1_quiet:
  "fst (take_rx 1 evs) = [] \<Longrightarrow> take_rx 1 evs = ([], drop 1 evs)"
proof (cases evs)
  case Nil
  then show ?thesis by simp
next
  case (Cons ev r)
  assume "fst (take_rx 1 evs) = []"
  with Cons show ?thesis
    by (cases ev) (simp_all add: take_rx_Rx take_rx_Quiet split: prod.splits)
qed

lemma quiet_first_read:
  assumes "set (take (Suc n) evs) \<subseteq> {Quiet}"
  shows "fst (take_rx 1 evs) = []"
proof (cases evs)
  case Nil
  then show ?thesis by simp
next
  case (Cons ev r)
  with assms have "ev = Quiet" by simp
  with Cons show ?thesis by (simp add: take_rx_Quiet)
qed

lemma sync_loop_quiet:
  assumes "fst (take_rx 1 (rx w)) = []"
  shows "sync_loop timeout start w =
     (if 0 < timeout then
        (if timeout < wall_clock w (ticks w) - start
         then Some (Inl Timeout, w\<lparr>tx := tx w @ [0x33], rx := drop 1 (rx w), ticks := Suc (ticks w)\<rparr>)
         else sync_loop timeout start
                (w\<lparr>tx := tx w @ [0x33], rx := drop 1 (rx w), ticks := Suc (ticks w)\<rparr>))
      else sync_loop timeout start (w\<lparr>tx := tx w @ [0x33], rx := drop 1 (rx w)\<rparr>))"
  using take_rx_1_quiet [OF assms]
  by (subst sync_loop.simps) (simp add: ser_read_def ser_write_def time_time_def)

lemma sync_loop_byte:
  assumes "rx w = Rx b # rest"
  shows "sync_loop timeout start w =
     (if b = 0x01 then Some (Inr (), w\<lparr>rx := rest, tx := tx w @ [0x33]\<rparr>)
      else Some (Inl (UnexpectedResponse [b]), w\<lparr>rx := rest, tx := tx w @ [0x33]\<rparr>))"
  by (subst sync_loop.simps) (simp add: ser_read_def ser_write_def assms take_rx_Rx)

lemma sync_loop_times_out:
  assumes "0 < timeout" and "set (take (Suc n) (rx w)) \<subseteq> {Quiet}"
    and "\<forall>i<n. wall_clock w (ticks w + i) - start \<le> timeout"
    and "timeout < wall_clock w (ticks w + n) - start"
  shows "sync_loop timeout start w =
     Some (Inl Timeout, w\<lparr>rx := drop (Suc n) (rx w), tx := tx w @ replicate (Suc n) 0x33,
                           ticks := ticks w + Suc n\<rparr>)"
  using assms(2-4)
proof (induction n arbitrary: w)
  case 0
  from "0.prems"(1) have "fst (take_rx 1 (rx w)) = []"
    by (rule quiet_first_read)
  then show ?case
    using assms(1) "0.prems"(3) by (simp add: sync_loop_quiet)
next
  case (Suc n)
  let ?w = "w\<lparr>tx := tx w @ [0x33], rx := drop 1 (rx w), ticks := Suc (ticks w)\<rparr>"
  from Suc.prems(1) have q: "fst (take_rx 1 (rx w)) = []"
    by (rule quiet_first_read)
  from Suc.prems(2) have "wall_clock w (ticks w + 0) - start \<le> timeout"
    by blast
  then have step: "sync_loop timeout start w = sync_loop timeout start ?w"
    using assms(1) by (simp add: sync_loop_quiet [OF q])
  have "set (take (Suc n) (rx ?w)) \<subseteq> set (take (Suc (Suc n)) (rx w))"
    by (cases "rx w") auto
  with Suc.prems(1) have 1: "set (take (Suc n) (rx ?w)) \<subseteq> {Quiet}"
    by blast
  have 2: "\<forall>i<n. wall_clock ?w (ticks ?w + i) - start \<le> timeout"
  proof (intro allI impI)
    fix i assume "i < n"
    then have "Suc i < Suc n" by simp
    with Suc.prems(2) have "wall_clock w (ticks w + Suc i) - start \<le> timeout" by blast
    then show "wall_clock ?w (ticks ?w + i) - start \<le> timeout" by simp
  qed
  from Suc.prems(3) have 3: "timeout < wall_clock ?w (ticks ?w + n) - start"
    by simp
  have "drop (Suc n) (drop 1 (rx w)) = drop (Suc (Suc n)) (rx w)"
    by simp
  with Suc.IH [OF 1 2 3] show ?case
    by (simp add: step replicate_append_same)
qed

lemma sync_loop_unbounded_no_timeout:
  assumes "sync_loop timeout start w = Some y" and "timeout \<le> 0"
  shows "fst y \<noteq> Inl Timeout"
proof -
  have "timeout \<le> 0 \<longrightarrow> fst y \<noteq> Inl Timeout"
  proof (rule sync_loop.raw_induct
      [where P = "\<lambda>t s v r. t \<le> 0 \<longrightarrow> fst r \<noteq> Inl Timeout", OF _ assms(1)])
    fix f :: "real \<Rightarrow> real \<Rightarrow> world \<Rightarrow> ((error + unit) \<times> world) option"
      and t s :: real and v :: world and r :: "(error + unit) \<times> world"
    assume IH: "\<And>t s v r. f t s v = Some r \<Longrightarrow> t \<le> 0 \<longrightarrow> fst r \<noteq> Inl Timeout"
      and body: "(case ser_read 1 (ser_write [0x33] v) of
          (resp, w1) \<Rightarrow>
            if resp \<noteq> []
            then if resp = [0x01] then Some (Inr (), w1)
                 else Some (Inl (UnexpectedResponse resp), w1)
            else if 0 < t
                 then case time_time w1 of
                      (now, w2) \<Rightarrow>
                        if t < now - s then Some (Inl Timeout, w2)
                        else f t s w2
                 else f t s w1) = Some r"
    show "t \<le> 0 \<longrightarrow> fst r \<noteq> Inl Timeout"
    proof
      assume le: "t \<le> 0"
      obtain resp evs where rd: "take_rx 1 (rx v) = (resp, evs)"
        by (cases "take_rx 1 (rx v)")
      show "fst r \<noteq> Inl Timeout"
      proof (cases "resp = []")
        case True
        with body rd le have "f t s (v\<lparr>tx := tx v @ [0x33], rx := evs\<rparr>) = Some r"
          by (simp add: ser_read_def ser_write_def)
        from IH [OF this] le show ?thesis by simp
      next
        case False
        with body rd show ?thesis
          by (auto simp add: ser_read_def ser_write_def split: if_splits)
      qed
    qed
  qed
  with assms(2) show ?thesis by simp
qed

lemma sync_loop_runs_forever:
  assumes "timeout \<le> 0" and "set (rx w) \<subseteq> {Quiet}"
  shows "sync_loop timeout start w = None"
proof (rule ccontr)
  assume "sync_loop timeout start w \<noteq> None"
  then obtain y where y: "sync_loop timeout start w = Some y" by auto
  have "\<not> (timeout \<le> 0 \<and> set (rx w) \<subseteq> {Quiet})"
  proof (rule sync_loop.raw_induct
      [where P = "\<lambda>t s v r. \<not> (t \<le> 0 \<and> set (rx v) \<subseteq> {Quiet})", OF _ y])
    fix f :: "real \<Rightarrow> real \<Rightarrow> world \<Rightarrow> ((error + unit) \<times> world) option"
      and t s :: real and v :: world and r :: "(error + unit) \<times> world"
    assume IH: "\<And>t s v r. f t s v = Some r \<Longrightarrow> \<not> (t \<le> 0 \<and> set (rx v) \<subseteq> {Quiet})"
      and body: "(case ser_read 1 (ser_write [0x33] v) of
          (resp, w1) \<Rightarrow>
            if resp \<noteq> []
            then if resp = [0x01] then Some (Inr (), w1)
                 else Some (Inl (UnexpectedResponse resp), w1)
            else if 0 < t
                 then case time_time w1 of
                      (now, w2) \<Rightarrow>
                        if t < now - s then Some (Inl Timeout, w2)
                        else f t s w2
                 else f t s w1) = Some r"
    show "\<not> (t \<le> 0 \<and> set (rx v) \<subseteq> {Quiet})"
    proof
      assume a: "t \<le> 0 \<and> set (rx v) \<subseteq> {Quiet}"
      then have "set (take (Suc 0) (rx v)) \<subseteq> {Quiet}"
        using set_take_subset [of "Suc 0" "rx v"] by blast
      then have "fst (take_rx 1 (rx v)) = []"
        by (rule quiet_first_read)
      then have rd: "take_rx 1 (rx v) = ([], drop 1 (rx v))"
        by (rule take_rx_1_quiet)
      with body a have "f t s (v\<lparr>tx := tx v @ [0x33], rx := drop 1 (rx v)\<rparr>) = Some r"
        by (simp add: ser_read_def ser_write_def)
      from IH [OF this] a have "\<not> set (drop 1 (rx v)) \<subseteq> {Quiet}"
        by simp
      moreover have "set (drop 1 (rx v)) \<subseteq> set (rx v)"
        by (rule set_drop_subset)
      ultimately show False using a by blast
    qed
  qed
  with assms show False by simp
qed

text \<open>
  Claim C8. In the low-baud loop, whatever the line delivers: an empty read makes the loop
  go round again, writing 0x33 and reading once more (first two parts, without and with a
  time bound); the byte 0x01 ends the loop and any other byte fails at once with the
  unexpected-response error (third and fourth part); with a timeout above zero the loop
  fails with the timeout error at the first empty read after which the clock shows more
  than the timeout since the start (fifth part, after \<open>n\<close> earlier empty reads within the
  bound); with a timeout of zero or less the loop never fails by timeout, and on a line
  that stays silent it never ends (last two parts).
\<close>

theorem sync_loop_behaviour:
  "(fst (take_rx 1 (rx w)) = [] \<and> timeout \<le> 0 \<longrightarrow>
      sync_loop timeout start w
        = sync_loop timeout start (w\<lparr>tx := tx w @ [0x33], rx := drop 1 (rx w)\<rparr>))
 \<and> (fst (take_rx 1 (rx w)) = [] \<and> 0 < timeout \<and> wall_clock w (ticks w) - start \<le> timeout \<longrightarrow>
      sync_loop timeout start w
        = sync_loop timeout start
            (w\<lparr>tx := tx w @ [0x33], rx := drop 1 (rx w), ticks := Suc (ticks w)\<rparr>))
 \<and> (rx w = Rx 0x01 # rest \<longrightarrow>
      sync_loop timeout start w = Some (Inr (), w\<lparr>rx := rest, tx := tx w @ [0x33]\<rparr>))
 \<and> (rx w = Rx b # rest \<and> b \<noteq> 0x01 \<longrightarrow>
      sync_loop timeout start w
        = Some (Inl (UnexpectedResponse [b]), w\<lparr>rx := rest, tx := tx w @ [0x33]\<rparr>))
 \<and> (0 < timeout \<and> set (take (Suc n) (rx w)) \<subseteq> {Quiet}
      \<and> (\<forall>i<n. wall_clock w (ticks w + i) - start \<le> timeout)
      \<and> timeout < wall_clock w (ticks w + n) - start \<longrightarrow>
      sync_loop timeout start w
        = Some (Inl Timeout, w\<lparr>rx := drop (Suc n) (rx w), tx := tx w @ replicate (Suc n) 0x33,
                                ticks := ticks w + Suc n\<rparr>))
 \<and> (timeout \<le> 0 \<longrightarrow> sync_loop timeout start w \<noteq> Some (Inl Timeout, w'))
 \<and> (timeout \<le> 0 \<and> set (rx w) \<subseteq> {Quiet} \<longrightarrow> sync_loop timeout start w = None)"
proof (intro conjI impI)
  assume "fst (take_rx 1 (rx w)) = [] \<and> timeout \<le> 0"
  then show "sync_loop timeout start w
      = sync_loop timeout start (w\<lparr>tx := tx w @ [0x33], rx := drop 1 (rx w)\<rparr>)"
    by (simp add: sync_loop_quiet)
next
  assume "fst (take_rx 1 (rx w)) = [] \<and> 0 < timeout \<and> wall_clock w (ticks w) - start \<le> timeout"
  then show "sync_loop timeout start w
      = sync_loop timeout start
          (w\<lparr>tx := tx w @ [0x33], rx := drop 1 (rx w), ticks := Suc (ticks w)\<rparr>)"
    by (simp add: sync_loop_quiet)
next
  assume "rx w = Rx 0x01 # rest"
  then show "sync_loop timeout start w = Some (Inr (), w\<lparr>rx := rest, tx := tx w @ [0x33]\<rparr>)"
    by (simp add: sync_loop_byte)
next
  assume "rx w = Rx b # rest \<and> b \<noteq> 0x01"
  then show "sync_loop timeout start w
      = Some (Inl (UnexpectedResponse [b]), w\<lparr>rx := rest, tx := tx w @ [0x33]\<rparr>)"
    by (simp add: sync_loop_byte)
next
  assume "0 < timeout \<and> set (take (Suc n) (rx w)) \<subseteq> {Quiet}
      \<and> (\<forall>i<n. wall_clock w (ticks w + i) - start \<le> timeout)
      \<and> timeout < wall_clock w (ticks w + n) - start"
  then show "sync_loop timeout start w
      = Some (Inl Timeout, w\<lparr>rx := drop (Suc n) (rx w), tx := tx w @ replicate (Suc n) 0x33,
                              ticks := ticks w + Suc n\<rparr>)"
    using sync_loop_times_out [of timeout n w start] by blast
next
  assume "timeout \<le> 0"
  then show "sync_loop timeout start w \<noteq> Some (Inl Timeout, w')"
    using sync_loop_unbounded_no_timeout [of timeout start w "(Inl Timeout, w')"] by auto
next
  assume "timeout \<le> 0 \<and> set (rx w) \<subseteq> {Quiet}"
  then show "sync_loop timeout start w = None"
    by (simp add: sync_loop_runs_forever)
qed

theorem sync_loop_behaviour_witness:
  "sync_loop 10 0
     \<lparr>rx = [Rx 0x55], tx = [], ser_timeout = 0.02, wall_clock = (\<lambda>k. 0), ticks = 1\<rparr>
     = Some (Inl (UnexpectedResponse [0x55]),
             \<lparr>rx = [], tx = [0x33], ser_timeout = 0.02, wall_clock = (\<lambda>k. 0), ticks = 1\<rparr>)
 \<and> sync_loop 10 0
     \<lparr>rx = [Quiet], tx = [], ser_timeout = 0.02,
      wall_clock = (\<lambda>k. if k < 3 then 1 else 12), ticks = 1\<rparr>
     = Some (Inl Timeout,
             \<lparr>rx = [], tx = [0x33, 0x33, 0x33], ser_timeout = 0.02,
              wall_clock = (\<lambda>k. if k < 3 then 1 else 12), ticks = 4\<rparr>)
 \<and> sync_loop 0 0
     \<lparr>rx = [Quiet], tx = [], ser_timeout = 0.02, wall_clock = (\<lambda>k. 100), ticks = 1\<rparr>
     = None"
  using
    sync_loop_behaviour [where w = "\<lparr>rx = [Rx 0x55], tx = [], ser_timeout = 0.02,
        wall_clock = (\<lambda>k. 0), ticks = 1\<rparr>" and timeout = 10 and start = 0 and b = "0x55"
        and rest = "[]", THEN conjunct2, THEN conjunct2, THEN conjunct2, THEN conjunct1]
    sync_loop_behaviour [where w = "\<lparr>rx = [Quiet], tx = [], ser_timeout = 0.02,
        wall_clock = (\<lambda>k. if k < 3 then 1 else 12), ticks = 1\<rparr>" and timeout = 10 and start = 0
        and n = "Suc (Suc 0)", THEN conjunct2, THEN conjunct2, THEN conjunct2, THEN conjunct2,
        THEN conjunct1]
    sync_loop_behaviour [where w = "\<lparr>rx = [Quiet], tx = [], ser_timeout = 0.02,
        wall_clock = (\<lambda>k. 100), ticks = 1\<rparr>" and timeout = 0 and start = 0,
        THEN conjunct2, THEN conjunct2, THEN conjunct2, THEN conjunct2, THEN conjunct2,
        THEN conjunct2]
  by simp

end
